theory Spec2Isabelle
  imports Complex_Main
begin

section \<open>Python numbers as the backoff arithmetic uses them\<close>

text \<open>
  The package is Python 2 code: \<^verbatim>\<open>kingpin/utils.py\<close> imports \<^verbatim>\<open>httplib\<close> and iterates
  \<^verbatim>\<open>os.environ.iteritems()\<close>, both of which exist in Python 2 only, and
  \<^verbatim>\<open>api_call_queue.py\<close> has no \<^verbatim>\<open>from __future__ import division\<close>. So \<^verbatim>\<open>/\<close> on two
  \<^verbatim>\<open>int\<close>s is floor division, and the model keeps apart the two number types the
  attributes hold: \<^verbatim>\<open>delay = 0\<close> and \<^verbatim>\<open>delay_max = 30\<close> are \<^verbatim>\<open>int\<close>s, \<^verbatim>\<open>delay_min = 0.25\<close>
  is a \<^verbatim>\<open>float\<close>.

  A float is modelled by the rational it denotes. The only float operations of the
  source are doubling and halving of values between \<open>1/8\<close> and \<open>60\<close>, which binary
  floating point performs exactly, so nothing is lost (lemma \<open>reachable_delays\<close>
  lists every value the attribute can take).
\<close>

datatype pynum = PyInt int | PyFloat rat

fun num_val :: "pynum \<Rightarrow> rat" where
  "num_val (PyInt n) = of_int n"
| "num_val (PyFloat x) = x"

text \<open>\<^verbatim>\<open>a == b\<close>, \<^verbatim>\<open>a < b\<close> and \<^verbatim>\<open>a > b\<close> compare an \<^verbatim>\<open>int\<close> and a \<^verbatim>\<open>float\<close> by value.\<close>

definition py_eq :: "pynum \<Rightarrow> pynum \<Rightarrow> bool" where
  "py_eq a b = (num_val a = num_val b)"

definition py_lt :: "pynum \<Rightarrow> pynum \<Rightarrow> bool" where
  "py_lt a b = (num_val a < num_val b)"

definition py_gt :: "pynum \<Rightarrow> pynum \<Rightarrow> bool" where
  "py_gt a b = (num_val b < num_val a)"

text \<open>
  \<^verbatim>\<open>a * b\<close>: an \<^verbatim>\<open>int\<close> when both are, a \<^verbatim>\<open>float\<close> otherwise. \<^verbatim>\<open>a / b\<close> in Python 2: floor
  division when both are \<^verbatim>\<open>int\<close>s, float division otherwise. The source divides by the
  literal \<^verbatim>\<open>2\<close> only, so \<^verbatim>\<open>ZeroDivisionError\<close> is not a case of the model.
\<close>

fun py_mul :: "pynum \<Rightarrow> pynum \<Rightarrow> pynum" where
  "py_mul (PyInt a) (PyInt b) = PyInt (a * b)"
| "py_mul a b = PyFloat (num_val a * num_val b)"

fun py_div :: "pynum \<Rightarrow> pynum \<Rightarrow> pynum" where
  "py_div (PyInt a) (PyInt b) = PyInt (a div b)"
| "py_div a b = PyFloat (num_val a / num_val b)"

text \<open>
  \<^verbatim>\<open>max(a, b)\<close> and \<^verbatim>\<open>min(a, b)\<close> return one of their arguments, with its type: the
  first one unless the second is strictly greater (strictly smaller).
\<close>

definition py_max :: "pynum \<Rightarrow> pynum \<Rightarrow> pynum" where
  "py_max a b = (if py_gt b a then b else a)"

definition py_min :: "pynum \<Rightarrow> pynum \<Rightarrow> pynum" where
  "py_min a b = (if py_lt b a then b else a)"


section \<open>The queue object and its backoff controller\<close>

text \<open>
  The attributes of \<^verbatim>\<open>ApiCallQueue\<close> that the methods read and write. The executor and
  the work queue are part of the dispatcher's state, further down.
\<close>

record ApiCallQueue =
  delay_min :: pynum
  delay_max :: pynum
  delay :: pynum
  boto2_throttle_strings :: "string list"

text \<open>The attribute values that \<^verbatim>\<open>__init__\<close> assigns.\<close>

definition init :: ApiCallQueue where
  "init = \<lparr> delay_min = PyFloat (1 / 4), delay_max = PyInt 30, delay = PyInt 0,
            boto2_throttle_strings = [''Throttling'', ''Rate exceeded'', ''reached max retries''] \<rparr>"

definition decrease_delay :: "ApiCallQueue \<Rightarrow> ApiCallQueue" where
  "decrease_delay q =
     (if py_eq (delay q) (PyInt 0) then q
      else if py_eq (delay q) (delay_min q) then q\<lparr>delay := PyInt 0\<rparr>
      else q\<lparr>delay := py_max (py_div (delay q) (PyInt 2)) (delay_min q)\<rparr>)"

definition increase_delay :: "ApiCallQueue \<Rightarrow> ApiCallQueue" where
  "increase_delay q =
     (if py_eq (delay q) (PyInt 0) then q\<lparr>delay := delay_min q\<rparr>
      else q\<lparr>delay := py_min (py_mul (delay q) (PyInt 2)) (delay_max q)\<rparr>)"

text \<open>A finite sequence of calls of the two methods, applied from left to right.\<close>

datatype backoff_op = Increase | Decrease

fun apply_op :: "backoff_op \<Rightarrow> ApiCallQueue \<Rightarrow> ApiCallQueue" where
  "apply_op Increase q = increase_delay q"
| "apply_op Decrease q = decrease_delay q"

fun apply_ops :: "backoff_op list \<Rightarrow> ApiCallQueue \<Rightarrow> ApiCallQueue" where
  "apply_ops [] q = q"
| "apply_ops (x # xs) q = apply_ops xs (apply_op x q)"

text \<open>The delays after \<open>1, 2, ..., n\<close> calls of one method.\<close>

fun delays_after :: "(ApiCallQueue \<Rightarrow> ApiCallQueue) \<Rightarrow> nat \<Rightarrow> ApiCallQueue \<Rightarrow> pynum list" where
  "delays_after m 0 q = []"
| "delays_after m (Suc n) q = delay (m q) # delays_after m n (m q)"


section \<open>Python objects: results and exceptions\<close>

text \<open>
  The attributes of a boto2 \<^verbatim>\<open>BotoServerError\<close> that \<^verbatim>\<open>_call\<close> reads. \<^verbatim>\<open>error_code\<close> and
  \<^verbatim>\<open>message\<close> may be \<^verbatim>\<open>None\<close>.
\<close>

record boto_server_error =
  status :: int
  reason :: string
  error_code :: "string option"
  message :: "string option"

text \<open>
  A boto3 \<^verbatim>\<open>ClientError\<close> carries the parsed response, a dict of dicts. A lookup of a
  key that is not there raises \<^verbatim>\<open>KeyError\<close>.
\<close>

record client_error =
  response :: "(string \<times> (string \<times> string) list) list"

text \<open>
  The exception objects the queue tells apart: the two client conventions, the
  \<^verbatim>\<open>InvalidCredentials\<close> of \<^verbatim>\<open>kingpin.actors.exceptions\<close>, \<^verbatim>\<open>KeyError\<close>, any other instance
  of \<^verbatim>\<open>Exception\<close> (named by its class), and any instance of \<^verbatim>\<open>BaseException\<close> that is
  not an \<^verbatim>\<open>Exception\<close> (\<^verbatim>\<open>KeyboardInterrupt\<close>, \<^verbatim>\<open>SystemExit\<close>, \<^verbatim>\<open>GeneratorExit\<close>).
\<close>

datatype pyexc =
    BotoServerError boto_server_error
  | ClientError client_error
  | InvalidCredentials string
  | KeyError string
  | OtherException string
  | OtherBaseException string

text \<open>\<^verbatim>\<open>isinstance(e, Exception)\<close> on an exception object.\<close>

fun isinstance_Exception :: "pyexc \<Rightarrow> bool" where
  "isinstance_Exception (OtherBaseException c) = False"
| "isinstance_Exception e = True"

text \<open>
  A Python object handed around as a result: an ordinary value, or an exception object
  (a callable may return one as well as raise it).
\<close>

datatype 'a pyobj = Value 'a | ExcObj pyexc

text \<open>How a call ends: it returns an object or raises an exception.\<close>

datatype 'a outcome = Return "'a pyobj" | Raise pyexc

text \<open>\<^verbatim>\<open>'%s' % x\<close> for an attribute that is a string or \<^verbatim>\<open>None\<close>.\<close>

fun py_str :: "string option \<Rightarrow> string" where
  "py_str None = ''None''"
| "py_str (Some s) = s"


section \<open>The protected call\<close>

text \<open>
  \<^verbatim>\<open>api_function(*args, **kwargs)\<close> is an opaque callable on the outside world (the
  remote API): each invocation, with the same arguments, may end differently. It is
  modelled as a transition on a world state \<open>'w\<close>, the arguments bound in it.
\<close>

type_synonym ('w, 'a) api_function = "'w \<Rightarrow> 'a outcome \<times> 'w"

text \<open>
  What a run does besides computing, in order: the submission of an entry, the
  dispatcher taking an entry from the work queue, an invocation of the callable in the
  worker pool with the way it ended, the calls of the two backoff methods, the sleeps,
  and the dispatcher putting a result into an entry's result queue. Result queues are
  named by numbers.
\<close>

datatype 'a event =
    EvSubmit nat
  | EvGet nat
  | EvThread "'a outcome"
  | EvIncrease
  | EvDecrease
  | EvSleep pynum
  | EvPut nat "'a pyobj"

record ('w, 'a) machine =
  self :: ApiCallQueue
  world :: 'w
  trace :: "'a event list"

text \<open>\<^verbatim>\<open>yield self._thread(api_function, *args, **kwargs)\<close>.\<close>

definition u_thread ::
  "('w, 'a) api_function \<Rightarrow> ('w, 'a, 'm) machine_scheme \<Rightarrow> 'a outcome \<times> ('w, 'a, 'm) machine_scheme" where
  "u_thread f s =
     (case f (world s) of (out, w') \<Rightarrow> (out, s\<lparr>world := w', trace := trace s @ [EvThread out]\<rparr>))"

text \<open>The call sites \<^verbatim>\<open>self.decrease_delay()\<close>, \<^verbatim>\<open>self.increase_delay()\<close> and \<^verbatim>\<open>yield gen.sleep(d)\<close>.\<close>

definition call_decrease_delay :: "('w, 'a, 'm) machine_scheme \<Rightarrow> ('w, 'a, 'm) machine_scheme" where
  "call_decrease_delay s = s\<lparr>self := decrease_delay (self s), trace := trace s @ [EvDecrease]\<rparr>"

definition call_increase_delay :: "('w, 'a, 'm) machine_scheme \<Rightarrow> ('w, 'a, 'm) machine_scheme" where
  "call_increase_delay s = s\<lparr>self := increase_delay (self s), trace := trace s @ [EvIncrease]\<rparr>"

definition gen_sleep :: "pynum \<Rightarrow> ('w, 'a, 'm) machine_scheme \<Rightarrow> ('w, 'a, 'm) machine_scheme" where
  "gen_sleep d s = s\<lparr>trace := trace s @ [EvSleep d]\<rparr>"

text \<open>
  One pass through the body of the \<^verbatim>\<open>while True:\<close> loop of \<^verbatim>\<open>_call\<close>: it ends in
  \<^verbatim>\<open>continue\<close>, or it leaves the loop by \<^verbatim>\<open>raise gen.Return(result)\<close> or by raising.
  An exception that is neither a \<^verbatim>\<open>BotoServerError\<close> nor a \<^verbatim>\<open>ClientError\<close> matches no
  \<^verbatim>\<open>except\<close> clause and leaves the loop as it is; so does the \<^verbatim>\<open>KeyError\<close> of
  \<^verbatim>\<open>e.response['Error']['Code']\<close>, raised inside the handler.

  \<^verbatim>\<open>_call\<close> is a tornado coroutine, and tornado resumes a coroutine with the exception
  of the future it waits for only when that exception is an instance of \<^verbatim>\<open>Exception\<close>
  (\<^verbatim>\<open>Runner.run\<close> wraps \<^verbatim>\<open>future.result()\<close> in \<^verbatim>\<open>except Exception\<close>). When the callable
  raises any other \<^verbatim>\<open>BaseException\<close>, the exception is not thrown into \<^verbatim>\<open>_call\<close>: the
  coroutine is never resumed, and its own future is never resolved. That is the third
  way a pass can end.
\<close>

datatype ('s, 'a) iteration = Continue 's | Finished "'a outcome" 's | Abandoned 's

definition u_call_body ::
  "('w, 'a) api_function \<Rightarrow> ('w, 'a, 'm) machine_scheme \<Rightarrow> (('w, 'a, 'm) machine_scheme, 'a) iteration" where
  "u_call_body f s =
     (case u_thread f s of
        (Return result, s1) \<Rightarrow> Finished (Return result) (call_decrease_delay s1)
      | (Raise (BotoServerError e), s1) \<Rightarrow>
          if error_code e \<in> set (map Some (boto2_throttle_strings (self s1))) then
            (let s2 = call_increase_delay s1 in Continue (gen_sleep (delay (self s2)) s2))
          else
            (let e' =
               (if status e = 400 \<and> reason e = ''Bad Request'' \<and> error_code e = None
                then InvalidCredentials ''Access credentials have expired''
                else if status e = 403
                then InvalidCredentials (py_str (error_code e) @ '': '' @ py_str (message e))
                else BotoServerError e)
             in Finished (Raise e') (call_decrease_delay s1))
      | (Raise (ClientError e), s1) \<Rightarrow>
          (case map_of (response e) ''Error'' of
             None \<Rightarrow> Finished (Raise (KeyError ''Error'')) s1
           | Some err \<Rightarrow>
               (case map_of err ''Code'' of
                  None \<Rightarrow> Finished (Raise (KeyError ''Code'')) s1
                | Some code \<Rightarrow>
                    if code = ''Throttling'' then
                      (let s2 = call_increase_delay s1 in Continue (gen_sleep (delay (self s2)) s2))
                    else Finished (Raise (ClientError e)) (call_decrease_delay s1)))
      | (Raise e, s1) \<Rightarrow> if isinstance_Exception e then Finished (Raise e) s1 else Abandoned s1)"

text \<open>
  \<^verbatim>\<open>_call\<close> (an identifier cannot start with an underscore here, hence \<open>u_call\<close>): the
  loop has no bound on the number of retries, so it may run forever, which is the value
  \<open>None\<close>; and so is a call that is never resumed.
\<close>

partial_function (option) u_call ::
  "('w, 'a) api_function \<Rightarrow> ('w, 'a, 'm) machine_scheme \<Rightarrow> ('a outcome \<times> ('w, 'a, 'm) machine_scheme) option" where
  "u_call f s =
     (case u_call_body f s of
        Continue s' \<Rightarrow> u_call f s'
      | Finished out s' \<Rightarrow> Some (out, s')
      | Abandoned s' \<Rightarrow> None)"

declare u_call.simps [code]


section \<open>Submission and the dispatcher\<close>

text \<open>
  An entry of the work queue: the caller's private result queue and the callable (with
  its arguments).
\<close>

record ('w, 'a) entry =
  result_queue :: nat
  api_function :: "('w, 'a) api_function"

text \<open>
  The state of one queue instance with its dispatcher: \<open>u_queue\<close> is \<^verbatim>\<open>self._queue\<close>,
  \<open>current\<close> is the entry that \<^verbatim>\<open>_process_queue\<close> has taken and not yet answered
  (\<open>None\<close> while it waits in \<^verbatim>\<open>self._queue.get()\<close>), \<open>next_result_queue\<close> names the next
  fresh result queue, and \<open>abandoned\<close> says that the coroutine \<^verbatim>\<open>_process_queue\<close> waits for
  a future that is never resolved, so that tornado never resumes it.
\<close>

record ('w, 'a) dispatcher = "('w, 'a) machine" +
  u_queue :: "('w, 'a) entry list"
  current :: "('w, 'a) entry option"
  next_result_queue :: nat
  abandoned :: bool

definition init_dispatcher :: "'w \<Rightarrow> ('w, 'a) dispatcher" where
  "init_dispatcher w =
     \<lparr> self = init, world = w, trace = [], u_queue = [], current = None, next_result_queue = 0,
       abandoned = False \<rparr>"

text \<open>
  \<^verbatim>\<open>call\<close>, first half: a fresh result queue, and the entry appended to the work queue
  (which is unbounded, so \<^verbatim>\<open>put\<close> does not wait).
\<close>

definition call_put :: "('w, 'a) api_function \<Rightarrow> ('w, 'a) dispatcher \<Rightarrow> ('w, 'a) dispatcher" where
  "call_put f s =
     (let c = next_result_queue s
      in s\<lparr> trace := trace s @ [EvSubmit c],
             u_queue := u_queue s @ [\<lparr> result_queue = c, api_function = f \<rparr>],
             next_result_queue := c + 1 \<rparr>)"

text \<open>
  \<^verbatim>\<open>call\<close>, second half: what it does with the object it reads from its result queue.
\<close>

definition call_get :: "'a pyobj \<Rightarrow> 'a outcome" where
  "call_get result =
     (case result of
        ExcObj e \<Rightarrow> if isinstance_Exception e then Raise e else Return result
      | Value v \<Rightarrow> Return result)"

text \<open>
  \<^verbatim>\<open>try: result = yield self._call(...) except BaseException as e: result = e\<close>: the
  object bound to \<^verbatim>\<open>result\<close>. The clause names \<^verbatim>\<open>BaseException\<close>, but what reaches it is
  what tornado throws into \<^verbatim>\<open>_process_queue\<close>, and that is an instance of \<^verbatim>\<open>Exception\<close>;
  for any other exception there is no \<^verbatim>\<open>result\<close>, the coroutine is not resumed.
\<close>

fun caught :: "'a outcome \<Rightarrow> 'a pyobj option" where
  "caught (Return result) = Some result"
| "caught (Raise e) = (if isinstance_Exception e then Some (ExcObj e) else None)"

text \<open>
  \<^verbatim>\<open>yield result_queue.put(result)\<close> and the sleep that follows it, after which the
  dispatcher is back at \<^verbatim>\<open>self._queue.get()\<close>. Without a \<^verbatim>\<open>result\<close> there is no
  \<^verbatim>\<open>put\<close>: the dispatcher is abandoned where it waits.
\<close>

definition deliver :: "('w, 'a) entry \<Rightarrow> 'a outcome \<Rightarrow> ('w, 'a) dispatcher \<Rightarrow> ('w, 'a) dispatcher" where
  "deliver e out s =
     (case caught out of
        None \<Rightarrow> s\<lparr> abandoned := True \<rparr>
      | Some result \<Rightarrow>
          (let s1 = s\<lparr> trace := trace s @ [EvPut (result_queue e) result], current := None \<rparr>
           in if py_gt (delay (self s1)) (PyInt 0) then gen_sleep (delay (self s1)) s1 else s1))"

text \<open>
  One step of \<^verbatim>\<open>_process_queue\<close>: waiting, it takes the head of the work queue if there
  is one (and stays suspended if not); serving an entry, it makes one pass through the
  loop of \<^verbatim>\<open>_call\<close> and, when that leaves the loop, delivers; when \<^verbatim>\<open>_call\<close> is
  abandoned, so is the dispatcher that waits for it, with the entry still in its hands.
\<close>

definition u_process_queue_step :: "('w, 'a) dispatcher \<Rightarrow> ('w, 'a) dispatcher" where
  "u_process_queue_step s =
     (case current s of
        None \<Rightarrow>
          (case u_queue s of
             [] \<Rightarrow> s
           | e # es \<Rightarrow> s\<lparr> trace := trace s @ [EvGet (result_queue e)], u_queue := es, current := Some e \<rparr>)
      | Some e \<Rightarrow>
          (case u_call_body (api_function e) s of
             Continue s' \<Rightarrow> s'
           | Finished out s' \<Rightarrow> deliver e out s'
           | Abandoned s' \<Rightarrow> s'\<lparr> abandoned := True \<rparr>))"

text \<open>
  A run of the system: callers submit and the dispatcher advances, interleaved in any
  order. An abandoned dispatcher is never resumed: its steps do nothing.
\<close>

datatype ('w, 'a) action = Submit "('w, 'a) api_function" | Dispatch

fun step :: "('w, 'a) action \<Rightarrow> ('w, 'a) dispatcher \<Rightarrow> ('w, 'a) dispatcher" where
  "step (Submit f) s = call_put f s"
| "step Dispatch s = (if abandoned s then s else u_process_queue_step s)"

fun exec :: "('w, 'a) action list \<Rightarrow> ('w, 'a) dispatcher \<Rightarrow> ('w, 'a) dispatcher" where
  "exec [] s = s"
| "exec (a # as) s = exec as (step a s)"


section \<open>Notions the properties are stated with\<close>

text \<open>Every value the \<^verbatim>\<open>delay\<close> attribute takes, with its Python type.\<close>

definition delay_values :: "pynum list" where
  "delay_values =
     [PyInt 0, PyFloat (1 / 4), PyFloat (1 / 2), PyFloat 1, PyFloat 2, PyFloat 4, PyFloat 8,
      PyFloat 16, PyInt 30, PyInt 15, PyInt 7, PyInt 3, PyInt 1, PyInt 14, PyInt 28, PyInt 6,
      PyInt 12, PyInt 24, PyInt 2, PyInt 4, PyInt 8, PyInt 16]"

text \<open>
  The attributes that \<^verbatim>\<open>__init__\<close> assigns and no method writes again have the values
  of \<^verbatim>\<open>__init__\<close>.
\<close>

definition constructed :: "ApiCallQueue \<Rightarrow> bool" where
  "constructed q =
     (delay_min q = PyFloat (1 / 4) \<and> delay_max q = PyInt 30 \<and>
      boto2_throttle_strings q = [''Throttling'', ''Rate exceeded'', ''reached max retries''])"


text \<open>
  An attempt ends in a throttling error, as the object's own list of throttle strings
  has it: a \<^verbatim>\<open>BotoServerError\<close> whose code is in the list, or a \<^verbatim>\<open>ClientError\<close> whose
  nested code is \<^verbatim>\<open>'Throttling'\<close>.
\<close>

fun throttling :: "ApiCallQueue \<Rightarrow> 'a outcome \<Rightarrow> bool" where
  "throttling q (Raise (BotoServerError e)) =
     (error_code e \<in> set (map Some (boto2_throttle_strings q)))"
| "throttling q (Raise (ClientError e)) =
     (case map_of (response e) ''Error'' of
        None \<Rightarrow> False
      | Some err \<Rightarrow> map_of err ''Code'' = Some ''Throttling'')"
| "throttling q out = False"

text \<open>
  The same with the three strings written out: the errors that the specification calls
  throttled.
\<close>

fun throttle_error :: "pyexc \<Rightarrow> bool" where
  "throttle_error (BotoServerError e) =
     (error_code e \<in> {Some ''Throttling'', Some ''Rate exceeded'', Some ''reached max retries''})"
| "throttle_error (ClientError e) =
     (case map_of (response e) ''Error'' of
        None \<Rightarrow> False
      | Some err \<Rightarrow> map_of err ''Code'' = Some ''Throttling'')"
| "throttle_error e = False"

text \<open>
  An attempt ends in a return, or in an error of one of the two client conventions (for
  a \<^verbatim>\<open>ClientError\<close>: one whose response has the nested code that the handler reads).
\<close>

fun handled :: "'a outcome \<Rightarrow> bool" where
  "handled (Return r) = True"
| "handled (Raise (BotoServerError e)) = True"
| "handled (Raise (ClientError e)) =
     (case map_of (response e) ''Error'' of
        None \<Rightarrow> False
      | Some err \<Rightarrow> map_of err ''Code'' \<noteq> None)"
| "handled (Raise e) = False"

text \<open>
  The events of a sequence of throttled attempts, each given by the way the attempt
  ended and the delay slept after it.
\<close>

definition round_events :: "('a outcome \<times> pynum) list \<Rightarrow> 'a event list" where
  "round_events rounds = concat (map (\<lambda>(r, d). [EvThread r, EvIncrease, EvSleep d]) rounds)"

text \<open>
  The state in which the loop of \<^verbatim>\<open>_call\<close> starts over after an attempt that raised
  \<open>e\<close> and left the world \<open>w'\<close>: the delay increased, and slept for.
\<close>

definition retry_state ::
  "pyexc \<Rightarrow> 'w \<Rightarrow> ('w, 'a, 'm) machine_scheme \<Rightarrow> ('w, 'a, 'm) machine_scheme" where
  "retry_state e w' s =
     s\<lparr> self := increase_delay (self s), world := w',
        trace := trace s @
          [EvThread (Raise e), EvIncrease, EvSleep (delay (increase_delay (self s)))] \<rparr>"


text \<open>
  The result queues named by the submissions, by the dispatcher's takes from the work
  queue and by its puts (with the object put), in the order of the events.
\<close>

definition submits :: "'a event list \<Rightarrow> nat list" where
  "submits tr = concat (map (\<lambda>ev. case ev of EvSubmit c \<Rightarrow> [c] | _ \<Rightarrow> []) tr)"

definition gets :: "'a event list \<Rightarrow> nat list" where
  "gets tr = concat (map (\<lambda>ev. case ev of EvGet c \<Rightarrow> [c] | _ \<Rightarrow> []) tr)"

definition puts :: "'a event list \<Rightarrow> (nat \<times> 'a pyobj) list" where
  "puts tr = concat (map (\<lambda>ev. case ev of EvPut c r \<Rightarrow> [(c, r)] | _ \<Rightarrow> []) tr)"

text \<open>
  What \<^verbatim>\<open>yield result_queue.get()\<close> gives the caller that holds the result queue \<open>c\<close>:
  the first object put into it, and nothing (the caller waits) while none has been put.
\<close>

definition result_queue_get :: "nat \<Rightarrow> 'a event list \<Rightarrow> 'a pyobj option" where
  "result_queue_get c tr =
     (case filter (\<lambda>cr. fst cr = c) (puts tr) of [] \<Rightarrow> None | cr # rest \<Rightarrow> Some (snd cr))"

text \<open>The result queue of the entry being served, if there is one.\<close>

definition serving :: "('w, 'a) dispatcher \<Rightarrow> nat list" where
  "serving s = (case current s of None \<Rightarrow> [] | Some e \<Rightarrow> [result_queue e])"

text \<open>
  A trace is serial when it can be read with at most one entry in service: an entry is
  taken only when none is in service, the callable is invoked and the backoff methods
  are called only while one is, and the entry in service is the one that is answered.
  \<open>serial_from cur tr\<close> reads \<open>tr\<close> starting with \<open>cur\<close> in service and gives who is in
  service at the end, or \<open>None\<close> if the trace is not serial.
\<close>

fun serve :: "nat option \<Rightarrow> 'a event \<Rightarrow> nat option option" where
  "serve None (EvGet c) = Some (Some c)"
| "serve None (EvSubmit c) = Some None"
| "serve None (EvSleep d) = Some None"
| "serve None ev = None"
| "serve (Some c) (EvGet c') = None"
| "serve (Some c) (EvPut c' r) = (if c' = c then Some None else None)"
| "serve (Some c) ev = Some (Some c)"

fun serial_from :: "nat option \<Rightarrow> 'a event list \<Rightarrow> nat option option" where
  "serial_from cur [] = Some cur"
| "serial_from cur (ev # tr) =
     (case serve cur ev of None \<Rightarrow> None | Some cur' \<Rightarrow> serial_from cur' tr)"

text \<open>The events of a pass through the loop of \<^verbatim>\<open>_call\<close>.\<close>

fun call_event :: "'a event \<Rightarrow> bool" where
  "call_event (EvThread r) = True"
| "call_event EvIncrease = True"
| "call_event EvDecrease = True"
| "call_event (EvSleep d) = True"
| "call_event ev = False"

definition dispatcher_inv :: "('w, 'a) dispatcher \<Rightarrow> bool" where
  "dispatcher_inv s =
     (gets (trace s) @ map result_queue (u_queue s) = submits (trace s) \<and>
      map fst (puts (trace s)) @ serving s = gets (trace s) \<and>
      serial_from None (trace s) = Some (map_option result_queue (current s)) \<and>
      submits (trace s) = [0..<next_result_queue s])"


section \<open>Sample callables and states\<close>

text \<open>
  The world of the samples is the number of invocations so far. A fresh queue object,
  and one whose delay is half a second.
\<close>

definition start :: "(nat, nat) machine" where
  "start = \<lparr> self = init, world = 0, trace = [] \<rparr>"


definition rate_exceeded :: pyexc where
  "rate_exceeded = BotoServerError \<lparr> status = 400, reason = ''Bad Request'',
     error_code = Some ''Rate exceeded'', message = Some ''Rate exceeded'' \<rparr>"

definition throttled_403 :: pyexc where
  "throttled_403 = BotoServerError \<lparr> status = 403, reason = ''Forbidden'',
     error_code = Some ''Throttling'', message = Some ''Rate exceeded'' \<rparr>"

definition access_denied :: pyexc where
  "access_denied = BotoServerError \<lparr> status = 403, reason = ''Forbidden'',
     error_code = Some ''AccessDenied'', message = Some ''not authorized'' \<rparr>"

definition blank_400 :: pyexc where
  "blank_400 = BotoServerError \<lparr> status = 400, reason = ''Bad Request'',
     error_code = None, message = None \<rparr>"

definition empty_code_400 :: pyexc where
  "empty_code_400 = BotoServerError \<lparr> status = 400, reason = ''Bad Request'',
     error_code = Some [], message = None \<rparr>"

text \<open>Throttled twice, then a result.\<close>

definition flaky :: "(nat, nat) api_function" where
  "flaky w = (if w < 2 then Raise rate_exceeded else Return (Value 7), w + 1)"

text \<open>A throttling error with status 403 once, then a result.\<close>

definition throttled_403_then_ok :: "(nat, nat) api_function" where
  "throttled_403_then_ok w = (if w = 0 then Raise throttled_403 else Return (Value 1), w + 1)"

text \<open>A throttling error with status 403 once, then a refusal with status 403.\<close>

definition throttled_403_then_denied :: "(nat, nat) api_function" where
  "throttled_403_then_denied w = (if w = 0 then Raise throttled_403 else Raise access_denied, w + 1)"

definition raises_value_error :: "(nat, nat) api_function" where
  "raises_value_error w = (Raise (OtherException ''ValueError''), w)"

definition raises_access_denied :: "(nat, nat) api_function" where
  "raises_access_denied w = (Raise access_denied, w + 1)"

definition raises_blank_400 :: "(nat, nat) api_function" where
  "raises_blank_400 w = (Raise blank_400, w + 1)"

definition raises_empty_code_400 :: "(nat, nat) api_function" where
  "raises_empty_code_400 w = (Raise empty_code_400, w + 1)"

definition returns_value_error :: "(nat, nat) api_function" where
  "returns_value_error w = (Return (ExcObj (OtherException ''ValueError'')), w + 1)"

definition always_throttled :: "(nat, nat) api_function" where
  "always_throttled w = (Raise rate_exceeded, w + 1)"

definition raises_keyboard_interrupt :: "(nat, nat) api_function" where
  "raises_keyboard_interrupt w = (Raise (OtherBaseException ''KeyboardInterrupt''), w + 1)"

definition returns_two :: "(nat, nat) api_function" where
  "returns_two w = (Return (Value 2), w + 1)"

text \<open>
  Dispatcher states: two entries submitted; the first of them (\<open>flaky\<close>) taken; the same
  after its protected call; one entry taken whose callable returns an exception object;
  one entry taken whose callable is throttled forever.
\<close>

definition flaky_entry :: "(nat, nat) entry" where
  "flaky_entry = \<lparr> result_queue = 0, api_function = flaky \<rparr>"

definition value_error_entry :: "(nat, nat) entry" where
  "value_error_entry = \<lparr> result_queue = 1, api_function = raises_value_error \<rparr>"

definition two_submitted :: "(nat, nat) dispatcher" where
  "two_submitted = \<lparr> self = init, world = 0, trace = [EvSubmit 0, EvSubmit 1],
     u_queue = [flaky_entry, value_error_entry], current = None, next_result_queue = 2,
     abandoned = False \<rparr>"

definition serving_flaky :: "(nat, nat) dispatcher" where
  "serving_flaky = \<lparr> self = init, world = 0, trace = [EvSubmit 0, EvSubmit 1, EvGet 0],
     u_queue = [value_error_entry], current = Some flaky_entry, next_result_queue = 2,
     abandoned = False \<rparr>"

definition served_flaky :: "(nat, nat) dispatcher" where
  "served_flaky = \<lparr> self = init\<lparr>delay := PyFloat (1 / 4)\<rparr>, world = 3,
     trace = [EvSubmit 0, EvSubmit 1, EvGet 0,
              EvThread (Raise rate_exceeded), EvIncrease, EvSleep (PyFloat (1 / 4)),
              EvThread (Raise rate_exceeded), EvIncrease, EvSleep (PyFloat (1 / 2)),
              EvThread (Return (Value 7)), EvDecrease],
     u_queue = [value_error_entry], current = Some flaky_entry, next_result_queue = 2,
     abandoned = False \<rparr>"



definition stuck :: "(nat, nat) dispatcher" where
  "stuck = \<lparr> self = init, world = 0, trace = [EvSubmit 0, EvGet 0], u_queue = [],
     current = Some \<lparr> result_queue = 0, api_function = always_throttled \<rparr>,
     next_result_queue = 1, abandoned = False \<rparr>"

section \<open>The backoff controller\<close>

lemma constructed_init: "constructed init"
  by (simp add: constructed_def init_def)

lemma constructed_increase_delay: "constructed q \<Longrightarrow> constructed (increase_delay q)"
  by (simp add: constructed_def increase_delay_def)

lemma constructed_decrease_delay: "constructed q \<Longrightarrow> constructed (decrease_delay q)"
  by (simp add: constructed_def decrease_delay_def)

lemma increase_delay_values:
  "constructed q \<Longrightarrow> delay q \<in> set delay_values \<Longrightarrow> delay (increase_delay q) \<in> set delay_values"
  unfolding delay_values_def constructed_def
  by (auto simp: increase_delay_def py_eq_def py_min_def py_lt_def)

lemma decrease_delay_values:
  "constructed q \<Longrightarrow> delay q \<in> set delay_values \<Longrightarrow> delay (decrease_delay q) \<in> set delay_values"
  unfolding delay_values_def constructed_def
  by (auto simp: decrease_delay_def py_eq_def py_max_def py_gt_def)

lemma apply_ops_values:
  "constructed q \<Longrightarrow> delay q \<in> set delay_values \<Longrightarrow>
   constructed (apply_ops xs q) \<and> delay (apply_ops xs q) \<in> set delay_values"
proof (induction xs arbitrary: q)
  case Nil
  then show ?case by simp
next
  case (Cons x xs)
  then show ?case
    by (cases x)
      (simp_all add: constructed_increase_delay constructed_decrease_delay
        increase_delay_values decrease_delay_values)
qed

text \<open>
  The floats among the reachable delays are \<open>1/4, 1/2, 1, 2, 4, 8, 16\<close>: each is a power
  of two, and so are its double and its half.
\<close>

lemma reachable_delays: "delay (apply_ops xs init) \<in> set delay_values"
  using apply_ops_values [of init xs] constructed_init
  by (simp add: init_def delay_values_def)

text \<open>
  C2: from the initial state \<^verbatim>\<open>delay = 0\<close>, after any finite sequence of
  \<^verbatim>\<open>increase_delay()\<close> and \<^verbatim>\<open>decrease_delay()\<close> calls the delay is 0 or lies between
  \<^verbatim>\<open>delay_min = 0.25\<close> and \<^verbatim>\<open>delay_max = 30\<close>.
\<close>

theorem delay_zero_or_within_bounds:
  "num_val (delay (apply_ops xs init)) = 0 \<or>
   (1 / 4 \<le> num_val (delay (apply_ops xs init)) \<and> num_val (delay (apply_ops xs init)) \<le> 30)"
  using reachable_delays [of xs] unfolding delay_values_def by auto

lemma increase_delay_at_max:
  "delay_max q = PyInt 30 \<Longrightarrow> delay q = PyInt 30 \<Longrightarrow> increase_delay q = q"
  by (simp add: increase_delay_def py_eq_def py_min_def py_lt_def)

lemma increase_delay_8: "(increase_delay ^^ 8) init = init\<lparr>delay := PyInt 30\<rparr>"
  by (simp add: numeral_eq_Suc increase_delay_def init_def py_eq_def py_min_def py_lt_def)

lemma increase_delay_stays:
  "(increase_delay ^^ k) (init\<lparr>delay := PyInt 30\<rparr>) = init\<lparr>delay := PyInt 30\<rparr>"
  by (induction k) (simp_all add: increase_delay_at_max init_def)

lemma increase_delay_from_8: "(increase_delay ^^ (8 + k)) init = init\<lparr>delay := PyInt 30\<rparr>"
proof -
  have "(increase_delay ^^ (8 + k)) init = (increase_delay ^^ k) ((increase_delay ^^ 8) init)"
    by (metis add.commute funpow_add o_apply)
  then show ?thesis by (simp only: increase_delay_8 increase_delay_stays)
qed

text \<open>
  C3: from \<^verbatim>\<open>delay = 0\<close>, successive \<^verbatim>\<open>increase_delay()\<close> calls give 0.25, 0.5, 1, 2, 4, 8,
  16, 30, 30 and 30 ever after (the eighth call and every later one): the first call
  sets the delay to \<^verbatim>\<open>delay_min\<close>, every other call doubles it, capped at \<^verbatim>\<open>delay_max\<close>.
\<close>

theorem increase_delay_sequence:
  "delays_after increase_delay 9 init =
     [PyFloat (1 / 4), PyFloat (1 / 2), PyFloat 1, PyFloat 2, PyFloat 4, PyFloat 8, PyFloat 16,
      PyInt 30, PyInt 30] \<and>
   delay ((increase_delay ^^ (8 + k)) init) = PyInt 30 \<and>
   num_val (delay (increase_delay q)) =
     (if num_val (delay q) = 0 then num_val (delay_min q)
      else min (num_val (delay q) * 2) (num_val (delay_max q)))"
proof (intro conjI)
  show "delays_after increase_delay 9 init =
     [PyFloat (1 / 4), PyFloat (1 / 2), PyFloat 1, PyFloat 2, PyFloat 4, PyFloat 8, PyFloat 16,
      PyInt 30, PyInt 30]"
    by (simp add: numeral_eq_Suc increase_delay_def init_def py_eq_def py_min_def py_lt_def)
  show "delay ((increase_delay ^^ (8 + k)) init) = PyInt 30"
    by (simp only: increase_delay_from_8) simp
  show "num_val (delay (increase_delay q)) =
     (if num_val (delay q) = 0 then num_val (delay_min q)
      else min (num_val (delay q) * 2) (num_val (delay_max q)))"
    by (cases "delay q") (auto simp: increase_delay_def py_eq_def py_min_def py_lt_def min_def)
qed

text \<open>
  C4, on the code: the delay 30 that \<^verbatim>\<open>increase_delay\<close> stores is the \<^verbatim>\<open>int\<close> \<^verbatim>\<open>delay_max\<close>,
  and \<^verbatim>\<open>self.delay /= 2\<close> on an \<^verbatim>\<open>int\<close> is floor division. From it, successive
  \<^verbatim>\<open>decrease_delay()\<close> calls give 15, 7, 3, 1, 0.25, 0, 0 and not 15, 7.5, 3.75, 1.875,
  0.9375, 0.46875, 0.25, 0, 0.
\<close>

theorem decrease_delay_from_delay_max:
  "delays_after decrease_delay 7 (init\<lparr>delay := delay_max init\<rparr>) =
     [PyInt 15, PyInt 7, PyInt 3, PyInt 1, PyFloat (1 / 4), PyInt 0, PyInt 0]"
  by (simp add: numeral_eq_Suc decrease_delay_def init_def py_eq_def py_max_def py_gt_def)

text \<open>
  The eighth \<^verbatim>\<open>increase_delay()\<close> is what stores that \<^verbatim>\<open>int\<close>; and from the \<^verbatim>\<open>float\<close> 30.0
  (which no method stores) the halving is exact and the sequence is the one of C4.
\<close>

lemma delay_max_is_reached: "(increase_delay ^^ 8) init = init\<lparr>delay := delay_max init\<rparr>"
  by (simp add: increase_delay_8) (simp add: init_def)

lemma decrease_delay_from_float_30:
  "delays_after decrease_delay 9 (init\<lparr>delay := PyFloat 30\<rparr>) =
     [PyFloat 15, PyFloat (15 / 2), PyFloat (15 / 4), PyFloat (15 / 8), PyFloat (15 / 16),
      PyFloat (15 / 32), PyFloat (1 / 4), PyInt 0, PyInt 0]"
  by (simp add: numeral_eq_Suc decrease_delay_def init_def py_eq_def py_max_def py_gt_def)

lemma decrease_delay_at_zero: "delay q = PyInt 0 \<Longrightarrow> decrease_delay q = q"
  by (simp add: decrease_delay_def py_eq_def)


section \<open>The protected call\<close>

lemmas run_defs = u_call_body_def u_thread_def call_increase_delay_def call_decrease_delay_def
  gen_sleep_def increase_delay_def decrease_delay_def py_eq_def py_min_def py_lt_def py_max_def
  py_gt_def init_def

lemma round_events_simps [simp]:
  "round_events [] = []"
  "round_events ((r, d) # rounds) = EvThread r # EvIncrease # EvSleep d # round_events rounds"
  by (simp_all add: round_events_def)


lemma strings_increase_delay [simp]:
  "boto2_throttle_strings (increase_delay q) = boto2_throttle_strings q"
  by (simp add: increase_delay_def)

lemma strings_decrease_delay [simp]:
  "boto2_throttle_strings (decrease_delay q) = boto2_throttle_strings q"
  by (simp add: decrease_delay_def)

lemma throttling_cong:
  "boto2_throttle_strings q = boto2_throttle_strings q' \<Longrightarrow> throttling q out = throttling q' out"
  by (cases "(q, out)" rule: throttling.cases) simp_all

lemma throttling_throttle_error:
  "boto2_throttle_strings q = [''Throttling'', ''Rate exceeded'', ''reached max retries''] \<Longrightarrow>
   throttling q (Raise e) = throttle_error e"
  by (cases e) auto

text \<open>The three ways a pass through the loop body can end.\<close>

lemma u_call_body_Continue:
  assumes "u_call_body f s = Continue s1"
  shows "\<exists>r w'. f (world s) = (r, w') \<and> throttling (self s) r \<and>
     s1 = s\<lparr>self := increase_delay (self s), world := w',
            trace := trace s @ [EvThread r, EvIncrease, EvSleep (delay (increase_delay (self s)))]\<rparr>"
  using assms
  by (auto simp: u_call_body_def u_thread_def call_increase_delay_def call_decrease_delay_def
      gen_sleep_def Let_def
      split: prod.splits outcome.splits pyexc.splits option.splits if_splits)

lemma u_call_body_Finished:
  assumes "u_call_body f s = Finished out s1"
  shows "\<exists>r w'. f (world s) = (r, w') \<and> \<not> throttling (self s) r \<and>
     (out = r \<or>
      (\<exists>b m. r = Raise (BotoServerError b) \<and> out = Raise (InvalidCredentials m)) \<or>
      (\<exists>c k. r = Raise (ClientError c) \<and> out = Raise (KeyError k))) \<and>
     s1 = (if handled r then call_decrease_delay else id)
            (s\<lparr>world := w', trace := trace s @ [EvThread r]\<rparr>)"
  using assms
  by (auto simp: u_call_body_def u_thread_def call_increase_delay_def call_decrease_delay_def
      gen_sleep_def Let_def
      split: prod.splits outcome.splits pyexc.splits option.splits if_splits)

lemma u_call_body_Finished_caught:
  assumes "u_call_body f s = Finished out s1"
  shows "\<exists>result. caught out = Some result"
  using assms
  by (auto simp: u_call_body_def u_thread_def Let_def
      split: prod.splits outcome.splits pyexc.splits option.splits if_splits)

lemma u_call_body_Abandoned:
  assumes "u_call_body f s = Abandoned s1"
  shows "\<exists>e w'. f (world s) = (Raise e, w') \<and> \<not> isinstance_Exception e \<and>
     s1 = s\<lparr>world := w', trace := trace s @ [EvThread (Raise e)]\<rparr>"
  using assms
  by (auto simp: u_call_body_def u_thread_def Let_def
      split: prod.splits outcome.splits pyexc.splits option.splits if_splits)

lemma u_call_body_throttled:
  assumes "f (world s) = (Raise e, w')" and "throttling (self s) (Raise e)"
  shows "u_call_body f s = Continue (retry_state e w' s)"
  using assms
  by (cases e)
    (auto simp: u_call_body_def u_thread_def call_increase_delay_def gen_sleep_def retry_state_def
      Let_def split: option.splits)

text \<open>
  What a protected call that ends has done: some throttled attempts, each followed by
  \<^verbatim>\<open>increase_delay()\<close> and a sleep, then one attempt that was not throttled, followed by
  \<^verbatim>\<open>decrease_delay()\<close> if it was a return or an error of the two conventions.
\<close>

lemma u_call_shape:
  assumes "u_call f s = Some (out, s')"
  shows "\<exists>rounds last.
     trace s' = trace s @ round_events rounds @
       EvThread last # (if handled last then [EvDecrease] else []) \<and>
     list_all (\<lambda>(r, d). throttling (self s) r) rounds \<and>
     \<not> throttling (self s) last \<and>
     (out = last \<or>
      (\<exists>b m. last = Raise (BotoServerError b) \<and> out = Raise (InvalidCredentials m)) \<or>
      (\<exists>c k. last = Raise (ClientError c) \<and> out = Raise (KeyError k))) \<and>
     self s' = (if handled last then decrease_delay else id)
                 ((increase_delay ^^ length rounds) (self s))"
proof -
  define y where "y = (out, s')"
  have "u_call f s = Some y" using assms by (simp add: y_def)
  then have "\<exists>rounds last.
     trace (snd y) = trace s @ round_events rounds @
       EvThread last # (if handled last then [EvDecrease] else []) \<and>
     list_all (\<lambda>(r, d). throttling (self s) r) rounds \<and>
     \<not> throttling (self s) last \<and>
     (fst y = last \<or>
      (\<exists>b m. last = Raise (BotoServerError b) \<and> fst y = Raise (InvalidCredentials m)) \<or>
      (\<exists>c k. last = Raise (ClientError c) \<and> fst y = Raise (KeyError k))) \<and>
     self (snd y) = (if handled last then decrease_delay else id)
                      ((increase_delay ^^ length rounds) (self s))"
  proof (induction f s y rule: u_call.raw_induct [rotated 1, consumes 1])
    case (1 uc f s y)
    show ?case
    proof (cases "u_call_body f s")
      case (Continue s1)
      with 1(2) have rec: "uc f s1 = Some y" by simp
      from u_call_body_Continue [OF Continue] obtain r w' where
        r: "throttling (self s) r" and
        s1: "s1 = s\<lparr>self := increase_delay (self s), world := w',
            trace := trace s @ [EvThread r, EvIncrease, EvSleep (delay (increase_delay (self s)))]\<rparr>"
        by blast
      from 1(1) [OF rec] obtain rounds last where
        ih: "trace (snd y) = trace s1 @ round_events rounds @
               EvThread last # (if handled last then [EvDecrease] else [])"
          "list_all (\<lambda>(r, d). throttling (self s1) r) rounds"
          "\<not> throttling (self s1) last"
          "fst y = last \<or>
           (\<exists>b m. last = Raise (BotoServerError b) \<and> fst y = Raise (InvalidCredentials m)) \<or>
           (\<exists>c k. last = Raise (ClientError c) \<and> fst y = Raise (KeyError k))"
          "self (snd y) = (if handled last then decrease_delay else id)
                            ((increase_delay ^^ length rounds) (self s1))"
        by blast
      have same: "\<And>o'. throttling (self s1) o' = throttling (self s) o'"
        by (rule throttling_cong) (simp add: s1)
      let ?rounds = "(r, delay (increase_delay (self s))) # rounds"
      have "trace (snd y) = trace s @ round_events ?rounds @
              EvThread last # (if handled last then [EvDecrease] else [])"
        using ih(1) by (simp add: s1)
      moreover have "list_all (\<lambda>(r, d). throttling (self s) r) ?rounds"
        using ih(2) r by (simp add: same)
      moreover have "\<not> throttling (self s) last" using ih(3) by (simp add: same)
      moreover have "self (snd y) = (if handled last then decrease_delay else id)
                                      ((increase_delay ^^ length ?rounds) (self s))"
        using ih(5) by (simp add: s1 funpow_swap1)
      ultimately show ?thesis using ih(4) by blast
    next
      case (Finished out1 s1)
      with 1(2) have y: "y = (out1, s1)" by simp
      from u_call_body_Finished [OF Finished] obtain r w' where
        r: "\<not> throttling (self s) r"
          "out1 = r \<or>
           (\<exists>b m. r = Raise (BotoServerError b) \<and> out1 = Raise (InvalidCredentials m)) \<or>
           (\<exists>c k. r = Raise (ClientError c) \<and> out1 = Raise (KeyError k))" and
        s1: "s1 = (if handled r then call_decrease_delay else id)
                    (s\<lparr>world := w', trace := trace s @ [EvThread r]\<rparr>)"
        by blast
      show ?thesis
        apply (rule exI [of _ "[]"])
        apply (rule exI [of _ r])
        using r by (simp add: y s1 call_decrease_delay_def)
    next
      case (Abandoned s1)
      with 1(2) show ?thesis by simp
    qed
  qed
  then show ?thesis by (simp add: y_def)
qed





text \<open>
  C5: a legacy error whose code is \<^verbatim>\<open>'Throttling'\<close>, \<^verbatim>\<open>'Rate exceeded'\<close> or
  \<^verbatim>\<open>'reached max retries'\<close>, whatever its HTTP status, and a modern error whose nested
  code is \<^verbatim>\<open>'Throttling'\<close>, make the protected call increase the delay, sleep for it and
  run the same callable again; and no exception that a protected call raises is such a
  throttling error.
\<close>

theorem throttling_error_is_retried:
  fixes f :: "('w, 'a) api_function"
  assumes "boto2_throttle_strings (self s) =
      [''Throttling'', ''Rate exceeded'', ''reached max retries'']"
  shows "(f (world s) = (Raise e, w') \<and> throttle_error e \<longrightarrow>
            u_call_body f s = Continue (retry_state e w' s) \<and>
            u_call f s = u_call f (retry_state e w' s)) \<and>
         (u_call f s = Some (Raise x, s') \<longrightarrow> \<not> throttle_error x)"
proof (intro conjI impI)
  assume a: "f (world s) = (Raise e, w') \<and> throttle_error e"
  then have "throttling (self s) (Raise e :: 'a outcome)"
    using assms by (simp add: throttling_throttle_error)
  with a show b: "u_call_body f s = Continue (retry_state e w' s)"
    by (simp add: u_call_body_throttled)
  show "u_call f s = u_call f (retry_state e w' s)"
    by (subst u_call.simps) (simp add: b)
next
  assume "u_call f s = Some (Raise x, s')"
  from u_call_shape [OF this] obtain last :: "'a outcome" where
    l: "\<not> throttling (self s) last"
       "Raise x = last \<or>
        (\<exists>b m. last = Raise (BotoServerError b) \<and> Raise x = Raise (InvalidCredentials m)) \<or>
        (\<exists>c k. last = Raise (ClientError c) \<and> Raise x = Raise (KeyError k))"
    by blast
  from l(2) show "\<not> throttle_error x"
  proof (elim disjE exE)
    assume "Raise x = last"
    with l(1) have "\<not> throttling (self s) (Raise x :: 'a outcome)" by simp
    then show ?thesis using assms by (simp add: throttling_throttle_error)
  qed auto
qed


theorem throttling_error_is_retried_witness:
  "boto2_throttle_strings (self start) =
     [''Throttling'', ''Rate exceeded'', ''reached max retries''] \<and>
   throttled_403_then_denied (world start) = (Raise throttled_403, 1) \<and>
   throttle_error throttled_403 \<and>
   u_call_body throttled_403_then_denied start = Continue (retry_state throttled_403 1 start) \<and>
   u_call throttled_403_then_denied start =
     u_call throttled_403_then_denied (retry_state throttled_403 1 start) \<and>
   u_call throttled_403_then_denied start =
     Some (Raise (InvalidCredentials ''AccessDenied: not authorized''),
       \<lparr> self = init, world = 2,
         trace = [EvThread (Raise throttled_403), EvIncrease, EvSleep (PyFloat (1 / 4)),
                  EvThread (Raise access_denied), EvDecrease] \<rparr>) \<and>
   \<not> throttle_error (InvalidCredentials ''AccessDenied: not authorized'')"
proof -
  have c: "boto2_throttle_strings (self start) =
     [''Throttling'', ''Rate exceeded'', ''reached max retries'']"
    by (simp add: start_def init_def)
  have r: "u_call throttled_403_then_denied start =
     Some (Raise (InvalidCredentials ''AccessDenied: not authorized''),
       \<lparr> self = init, world = 2,
         trace = [EvThread (Raise throttled_403), EvIncrease, EvSleep (PyFloat (1 / 4)),
                  EvThread (Raise access_denied), EvDecrease] \<rparr>)"
    by (simp add: u_call.simps run_defs start_def throttled_403_then_denied_def
        throttled_403_def access_denied_def)
  have f: "throttled_403_then_denied (world start) = (Raise throttled_403, 1) \<and>
    throttle_error throttled_403"
    by (simp add: start_def throttled_403_then_denied_def throttled_403_def)
  show ?thesis
    using throttling_error_is_retried [OF c, of throttled_403_then_denied throttled_403 1
        "InvalidCredentials ''AccessDenied: not authorized''"
        "\<lparr> self = init, world = 2,
         trace = [EvThread (Raise throttled_403), EvIncrease, EvSleep (PyFloat (1 / 4)),
                  EvThread (Raise access_denied), EvDecrease] \<rparr>"] c r f
    by simp
qed

text \<open>
  C6, as the code has it: a legacy error with HTTP status 403 whose code is not one of
  the throttle strings ends the protected call at once, with one \<^verbatim>\<open>decrease_delay()\<close>
  and no retry, and what is raised, and then raised to the caller by \<^verbatim>\<open>call\<close>, is
  \<^verbatim>\<open>InvalidCredentials\<close> with the message \<^verbatim>\<open>'%s: %s' % (error_code, message)\<close>.
\<close>

theorem forbidden_becomes_invalid_credentials:
  fixes f :: "('w, 'a) api_function"
  assumes "f (world s) = (Raise (BotoServerError b), w')"
    and "status b = 403"
    and "error_code b \<notin> set (map Some (boto2_throttle_strings (self s)))"
  shows "u_call f s =
     Some (Raise (InvalidCredentials (py_str (error_code b) @ '': '' @ py_str (message b))),
       call_decrease_delay
         (s\<lparr>world := w', trace := trace s @ [EvThread (Raise (BotoServerError b))]\<rparr>)) \<and>
     map_option call_get (caught (Raise (InvalidCredentials
         (py_str (error_code b) @ '': '' @ py_str (message b))) :: 'a outcome)) =
       Some (Raise (InvalidCredentials (py_str (error_code b) @ '': '' @ py_str (message b))))"
  using assms by (subst u_call.simps) (simp add: u_call_body_def u_thread_def call_get_def)

theorem forbidden_becomes_invalid_credentials_witness:
  "u_call raises_access_denied start =
     Some (Raise (InvalidCredentials ''AccessDenied: not authorized''),
       \<lparr> self = init, world = 1, trace = [EvThread (Raise access_denied), EvDecrease] \<rparr>) \<and>
   map_option call_get
     (caught (Raise (InvalidCredentials ''AccessDenied: not authorized'') :: nat outcome)) =
     Some (Raise (InvalidCredentials ''AccessDenied: not authorized''))"
  using forbidden_becomes_invalid_credentials [of raises_access_denied start
      "\<lparr> status = 403, reason = ''Forbidden'', error_code = Some ''AccessDenied'',
         message = Some ''not authorized'' \<rparr>" 1]
  by (simp add: raises_access_denied_def access_denied_def start_def init_def
      call_decrease_delay_def decrease_delay_def py_eq_def)

text \<open>
  C6 as stated fails for a legacy error with HTTP status 403 whose code is a throttle
  string: the throttle test comes first, so the call is retried, and here the retry
  returns 1 and no \<^verbatim>\<open>InvalidCredentials\<close> is raised.
\<close>

theorem forbidden_throttling_is_retried:
  "throttled_403_then_ok (world start) =
     (Raise (BotoServerError \<lparr> status = 403, reason = ''Forbidden'',
        error_code = Some ''Throttling'', message = Some ''Rate exceeded'' \<rparr>), 1) \<and>
   u_call throttled_403_then_ok start =
     Some (Return (Value 1),
       \<lparr> self = init, world = 2,
         trace = [EvThread (Raise throttled_403), EvIncrease, EvSleep (PyFloat (1 / 4)),
                  EvThread (Return (Value 1)), EvDecrease] \<rparr>)"
  by (simp add: u_call.simps run_defs start_def throttled_403_then_ok_def throttled_403_def)

text \<open>
  C7, as the code has it: a legacy error with HTTP status 400, reason \<^verbatim>\<open>'Bad Request'\<close>
  and no error code (\<^verbatim>\<open>error_code is None\<close>) ends the protected call at once, with one
  \<^verbatim>\<open>decrease_delay()\<close> and no retry, and what is raised, and then raised to the caller
  by \<^verbatim>\<open>call\<close>, is \<^verbatim>\<open>InvalidCredentials('Access credentials have expired')\<close>.
\<close>

theorem blank_400_becomes_expired_credentials:
  fixes f :: "('w, 'a) api_function"
  assumes "f (world s) = (Raise (BotoServerError b), w')"
    and "status b = 400" and "reason b = ''Bad Request''" and "error_code b = None"
  shows "u_call f s =
     Some (Raise (InvalidCredentials ''Access credentials have expired''),
       call_decrease_delay
         (s\<lparr>world := w', trace := trace s @ [EvThread (Raise (BotoServerError b))]\<rparr>)) \<and>
     map_option call_get (caught (Raise (InvalidCredentials ''Access credentials have expired'')
         :: 'a outcome)) =
       Some (Raise (InvalidCredentials ''Access credentials have expired''))"
  using assms by (subst u_call.simps) (auto simp: u_call_body_def u_thread_def call_get_def)

theorem blank_400_becomes_expired_credentials_witness:
  "u_call raises_blank_400 start =
     Some (Raise (InvalidCredentials ''Access credentials have expired''),
       \<lparr> self = init, world = 1, trace = [EvThread (Raise blank_400), EvDecrease] \<rparr>) \<and>
   map_option call_get (caught (Raise (InvalidCredentials ''Access credentials have expired'')
       :: nat outcome)) =
     Some (Raise (InvalidCredentials ''Access credentials have expired''))"
  using blank_400_becomes_expired_credentials [of raises_blank_400 start
      "\<lparr> status = 400, reason = ''Bad Request'', error_code = None, message = None \<rparr>" 1]
  by (simp add: raises_blank_400_def blank_400_def start_def init_def
      call_decrease_delay_def decrease_delay_def py_eq_def)

text \<open>
  C7 as stated fails for an error code that is the empty string: \<^verbatim>\<open>'' is None\<close> is
  false, the status is not 403 either, and the original \<^verbatim>\<open>BotoServerError\<close> is raised.
\<close>

theorem empty_code_400_is_propagated:
  "raises_empty_code_400 (world start) =
     (Raise (BotoServerError \<lparr> status = 400, reason = ''Bad Request'',
        error_code = Some [], message = None \<rparr>), 1) \<and>
   u_call raises_empty_code_400 start =
     Some (Raise (BotoServerError \<lparr> status = 400, reason = ''Bad Request'',
        error_code = Some [], message = None \<rparr>),
       \<lparr> self = init, world = 1, trace = [EvThread (Raise empty_code_400), EvDecrease] \<rparr>)"
  by (simp add: u_call.simps run_defs start_def raises_empty_code_400_def empty_code_400_def)


section \<open>The dispatcher\<close>

lemma proj_append [simp]:
  "submits (xs @ ys) = submits xs @ submits ys"
  "gets (xs @ ys) = gets xs @ gets ys"
  "puts (xs @ ys) = puts xs @ puts ys"
  by (simp_all add: submits_def gets_def puts_def)

lemma proj_Nil [simp]: "submits [] = []" "gets [] = []" "puts [] = []"
  by (simp_all add: submits_def gets_def puts_def)

lemma proj_Cons [simp]:
  "submits (ev # tr) = (case ev of EvSubmit c \<Rightarrow> [c] | _ \<Rightarrow> []) @ submits tr"
  "gets (ev # tr) = (case ev of EvGet c \<Rightarrow> [c] | _ \<Rightarrow> []) @ gets tr"
  "puts (ev # tr) = (case ev of EvPut c r \<Rightarrow> [(c, r)] | _ \<Rightarrow> []) @ puts tr"
  by (simp_all add: submits_def gets_def puts_def)

lemma proj_call_events:
  "list_all call_event tr \<Longrightarrow> submits tr = [] \<and> gets tr = [] \<and> puts tr = []"
proof (induction tr)
  case Nil
  then show ?case by simp
next
  case (Cons ev tr)
  then show ?case by (cases ev) simp_all
qed

lemma serial_from_append:
  "serial_from cur (xs @ ys) =
     (case serial_from cur xs of None \<Rightarrow> None | Some cur' \<Rightarrow> serial_from cur' ys)"
  by (induction xs arbitrary: cur) (auto split: option.splits)

lemma serial_call_events:
  "list_all call_event tr \<Longrightarrow> serial_from (Some c) tr = Some (Some c)"
proof (induction tr)
  case Nil
  then show ?case by simp
next
  case (Cons ev tr)
  then show ?case by (cases ev) simp_all
qed

text \<open>A pass through the loop of \<^verbatim>\<open>_call\<close> leaves the dispatcher's own fields alone.\<close>

lemma u_call_body_dispatcher:
  fixes s :: "('w, 'a) dispatcher"
  assumes "u_call_body f s = Continue s1 \<or> u_call_body f s = Finished out s1 \<or>
    u_call_body f s = Abandoned s1"
  shows "\<exists>tr. trace s1 = trace s @ tr \<and> list_all call_event tr \<and>
     u_queue s1 = u_queue s \<and> current s1 = current s \<and>
     next_result_queue s1 = next_result_queue s \<and> abandoned s1 = abandoned s"
  using assms
proof (elim disjE)
  assume "u_call_body f s = Continue s1"
  from u_call_body_Continue [OF this] show ?thesis by auto
next
  assume "u_call_body f s = Finished out s1"
  from u_call_body_Finished [OF this] show ?thesis
    by (auto simp: call_decrease_delay_def)
next
  assume "u_call_body f s = Abandoned s1"
  from u_call_body_Abandoned [OF this] show ?thesis by auto
qed

lemma deliver_fields:
  assumes "caught out = Some result"
  shows "trace (deliver e out s) = trace s @ EvPut (result_queue e) result #
     (if py_gt (delay (self s)) (PyInt 0) then [EvSleep (delay (self s))] else [])"
    "current (deliver e out s) = None"
    "u_queue (deliver e out s) = u_queue s"
    "next_result_queue (deliver e out s) = next_result_queue s"
    "abandoned (deliver e out s) = abandoned s"
  using assms by (simp_all add: deliver_def gen_sleep_def Let_def)

lemma dispatcher_inv_init: "dispatcher_inv (init_dispatcher w)"
  by (simp add: dispatcher_inv_def init_dispatcher_def serving_def)

lemma dispatcher_inv_call_put: "dispatcher_inv s \<Longrightarrow> dispatcher_inv (call_put f s)"
  by (cases "current s")
    (auto simp: dispatcher_inv_def call_put_def Let_def serving_def serial_from_append)

lemma dispatcher_inv_step:
  assumes "dispatcher_inv s"
  shows "dispatcher_inv (u_process_queue_step s)"
proof (cases "current s")
  case None
  then show ?thesis using assms
    by (cases "u_queue s")
      (auto simp: u_process_queue_step_def dispatcher_inv_def serving_def serial_from_append)
next
  case (Some e)
  show ?thesis
  proof (cases "u_call_body (api_function e) s")
    case (Continue s1)
    from u_call_body_dispatcher [of "api_function e" s s1] Continue obtain tr where
      tr: "trace s1 = trace s @ tr" "list_all call_event tr"
        "u_queue s1 = u_queue s" "current s1 = current s"
        "next_result_queue s1 = next_result_queue s"
      by blast
    have "u_process_queue_step s = s1"
      by (simp add: u_process_queue_step_def Some Continue)
    then show ?thesis using assms tr Some
      by (simp add: dispatcher_inv_def serving_def serial_from_append proj_call_events
          serial_call_events)
  next
    case (Finished out s1)
    from u_call_body_dispatcher [of "api_function e" s s1 out] Finished obtain tr where
      tr: "trace s1 = trace s @ tr" "list_all call_event tr"
        "u_queue s1 = u_queue s" "current s1 = current s"
        "next_result_queue s1 = next_result_queue s"
      by blast
    from u_call_body_Finished_caught [OF Finished] obtain result where
      c: "caught out = Some result" by blast
    have "u_process_queue_step s = deliver e out s1"
      by (simp add: u_process_queue_step_def Some Finished)
    then show ?thesis using assms tr Some
      by (simp add: dispatcher_inv_def serving_def serial_from_append proj_call_events
          serial_call_events deliver_fields [OF c])
  next
    case (Abandoned s1)
    from u_call_body_dispatcher [of "api_function e" s s1] Abandoned obtain tr where
      tr: "trace s1 = trace s @ tr" "list_all call_event tr"
        "u_queue s1 = u_queue s" "current s1 = current s"
        "next_result_queue s1 = next_result_queue s"
      by blast
    have "u_process_queue_step s = s1\<lparr> abandoned := True \<rparr>"
      by (simp add: u_process_queue_step_def Some Abandoned)
    then show ?thesis using assms tr Some
      by (simp add: dispatcher_inv_def serving_def serial_from_append proj_call_events
          serial_call_events)
  qed
qed

lemma dispatcher_inv_exec: "dispatcher_inv s \<Longrightarrow> dispatcher_inv (exec acts s)"
proof (induction acts arbitrary: s)
  case Nil
  then show ?case by simp
next
  case (Cons a acts)
  then show ?case by (cases a) (simp_all add: dispatcher_inv_call_put dispatcher_inv_step)
qed

text \<open>
  C8: whatever the callers submit and however submissions and dispatcher steps
  interleave, the entries are taken from the work queue in the order of their
  submission (the entries taken, followed by those still queued, are the entries
  submitted), results are put in that same order (the entries answered, followed by
  the one in service if there is one, are the entries taken), and the trace is serial:
  an entry is taken only after the one before it has been answered, and the callable is
  invoked only for the one entry in service.
\<close>

theorem fifo_dispatch:
  "gets (trace (exec acts (init_dispatcher w))) @
     map result_queue (u_queue (exec acts (init_dispatcher w))) =
     submits (trace (exec acts (init_dispatcher w))) \<and>
   map fst (puts (trace (exec acts (init_dispatcher w)))) @
     serving (exec acts (init_dispatcher w)) =
     gets (trace (exec acts (init_dispatcher w))) \<and>
   serial_from None (trace (exec acts (init_dispatcher w))) =
     Some (map_option result_queue (current (exec acts (init_dispatcher w)))) \<and>
   distinct (submits (trace (exec acts (init_dispatcher w))))"
  using dispatcher_inv_exec [OF dispatcher_inv_init, of acts w] by (simp add: dispatcher_inv_def)

text \<open>A run of the system, three submissions interleaved with the dispatcher's steps.\<close>

lemma sample_run:
  "trace (exec [Submit flaky, Submit raises_value_error, Dispatch, Dispatch,
       Submit returns_value_error, Dispatch, Dispatch, Dispatch, Dispatch, Dispatch, Dispatch]
     (init_dispatcher 0)) =
   [EvSubmit 0, EvSubmit 1, EvGet 0,
    EvThread (Raise rate_exceeded), EvIncrease, EvSleep (PyFloat (1 / 4)), EvSubmit 2,
    EvThread (Raise rate_exceeded), EvIncrease, EvSleep (PyFloat (1 / 2)),
    EvThread (Return (Value 7)), EvDecrease, EvPut 0 (Value 7), EvSleep (PyFloat (1 / 4)),
    EvGet 1, EvThread (Raise (OtherException ''ValueError'')),
    EvPut 1 (ExcObj (OtherException ''ValueError'')), EvSleep (PyFloat (1 / 4)),
    EvGet 2, EvThread (Return (ExcObj (OtherException ''ValueError''))), EvDecrease,
    EvPut 2 (ExcObj (OtherException ''ValueError''))]"
  by (simp add: run_defs init_dispatcher_def call_put_def u_process_queue_step_def deliver_def
      flaky_def raises_value_error_def returns_value_error_def rate_exceeded_def)

text \<open>
  When the protected call of the entry in service ends and the dispatcher has not been
  abandoned, the dispatcher's steps arrive at the delivery of the call's outcome.
\<close>

lemma delivery:
  fixes s :: "('w, 'a) dispatcher"
  assumes "u_call f s = Some (out, s')" and "current s = Some e" and "api_function e = f"
    and "\<not> abandoned s"
  shows "\<exists>n. exec (replicate n Dispatch) s = deliver e out s'"
proof -
  define y where "y = (out, s')"
  have "u_call f s = Some y" using assms(1) by (simp add: y_def)
  then have "current s = Some e \<and> api_function e = f \<and> \<not> abandoned s \<longrightarrow>
     (\<exists>n. exec (replicate n Dispatch) s = deliver e (fst y) (snd y))"
  proof (induction f s y rule: u_call.raw_induct [rotated 1, consumes 1])
    case (1 uc f s y)
    show ?case
    proof (intro impI, elim conjE)
      assume cur: "current s = Some e" and f: "api_function e = f" and live: "\<not> abandoned s"
      show "\<exists>n. exec (replicate n Dispatch) s = deliver e (fst y) (snd y)"
      proof (cases "u_call_body f s")
        case (Continue s1)
        with 1(2) have rec: "uc f s1 = Some y" by simp
        from u_call_body_dispatcher [of f s s1] Continue
        have "current s1 = current s" "abandoned s1 = abandoned s" by blast+
        with 1(1) [OF rec] cur f live obtain n where
          n: "exec (replicate n Dispatch) s1 = deliver e (fst y) (snd y)" by auto
        have "step Dispatch s = s1"
          by (simp add: u_process_queue_step_def cur f Continue live)
        then have "exec (replicate (Suc n) Dispatch) s = deliver e (fst y) (snd y)"
          using n by simp
        then show ?thesis by blast
      next
        case (Finished out1 s1)
        with 1(2) have y: "y = (out1, s1)" by simp
        have "step Dispatch s = deliver e out1 s1"
          by (simp add: u_process_queue_step_def cur f Finished live)
        then have "exec (replicate 1 Dispatch) s = deliver e (fst y) (snd y)"
          by (simp add: y)
        then show ?thesis by blast
      next
        case (Abandoned s1)
        with 1(2) show ?thesis by simp
      qed
    qed
  qed
  then show ?thesis using assms(2,3,4) by (simp add: y_def)
qed

text \<open>
  A protected call that ends has put nothing and left the dispatcher's own fields
  alone, and its outcome is a return or an instance of \<^verbatim>\<open>Exception\<close>.
\<close>

lemma u_call_dispatcher:
  fixes s :: "('w, 'a) dispatcher"
  assumes "u_call f s = Some (out, s')"
  shows "puts (trace s') = puts (trace s) \<and> u_queue s' = u_queue s \<and>
    next_result_queue s' = next_result_queue s \<and> abandoned s' = abandoned s \<and>
    (\<exists>result. caught out = Some result)"
proof -
  define y where "y = (out, s')"
  have "u_call f s = Some y" using assms(1) by (simp add: y_def)
  then have "puts (trace (snd y)) = puts (trace s) \<and> u_queue (snd y) = u_queue s \<and>
    next_result_queue (snd y) = next_result_queue s \<and> abandoned (snd y) = abandoned s \<and>
    (\<exists>result. caught (fst y) = Some result)"
  proof (induction f s y rule: u_call.raw_induct [rotated 1, consumes 1])
    case (1 uc f s y)
    show ?case
    proof (cases "u_call_body f s")
      case (Continue s1)
      with 1(2) have rec: "uc f s1 = Some y" by simp
      from u_call_body_dispatcher [of f s s1] Continue obtain tr where
        "trace s1 = trace s @ tr" "list_all call_event tr" "u_queue s1 = u_queue s"
        "next_result_queue s1 = next_result_queue s" "abandoned s1 = abandoned s" by blast
      with 1(1) [OF rec] show ?thesis by (simp add: proj_call_events)
    next
      case (Finished out1 s1)
      with 1(2) have y: "y = (out1, s1)" by simp
      from u_call_body_dispatcher [of f s s1 out1] Finished obtain tr where
        "trace s1 = trace s @ tr" "list_all call_event tr" "u_queue s1 = u_queue s"
        "next_result_queue s1 = next_result_queue s" "abandoned s1 = abandoned s" by blast
      then show ?thesis
        using u_call_body_Finished_caught [OF Finished] by (simp add: y proj_call_events)
    next
      case (Abandoned s1)
      with 1(2) show ?thesis by simp
    qed
  qed
  then show ?thesis by (simp add: y_def)
qed

text \<open>A dispatcher that waits at the work queue has not been abandoned.\<close>

lemma abandoned_in_service_step:
  assumes "\<not> abandoned s"
  shows "abandoned (u_process_queue_step s) \<longrightarrow> current (u_process_queue_step s) \<noteq> None"
proof (cases "current s")
  case None
  then show ?thesis using assms
    by (cases "u_queue s") (simp_all add: u_process_queue_step_def)
next
  case (Some e)
  show ?thesis
  proof (cases "u_call_body (api_function e) s")
    case (Continue s1)
    from u_call_body_dispatcher [of "api_function e" s s1] Continue
    have "current s1 = current s" by blast
    then show ?thesis by (simp add: u_process_queue_step_def Some Continue)
  next
    case (Finished out s1)
    from u_call_body_dispatcher [of "api_function e" s s1 out] Finished
    have "abandoned s1 = abandoned s" by blast
    moreover from u_call_body_Finished_caught [OF Finished] obtain result where
      c: "caught out = Some result" by blast
    ultimately show ?thesis
      using assms by (simp add: u_process_queue_step_def Some Finished deliver_fields [OF c])
  next
    case (Abandoned s1)
    from u_call_body_dispatcher [of "api_function e" s s1] Abandoned
    have "current s1 = current s" by blast
    then show ?thesis by (simp add: u_process_queue_step_def Some Abandoned)
  qed
qed

lemma abandoned_in_service_exec:
  "(abandoned s \<longrightarrow> current s \<noteq> None) \<Longrightarrow>
   (abandoned (exec acts s) \<longrightarrow> current (exec acts s) \<noteq> None)"
proof (induction acts arbitrary: s)
  case Nil
  then show ?case by simp
next
  case (Cons a acts)
  have "abandoned (step a s) \<longrightarrow> current (step a s) \<noteq> None"
  proof (cases a)
    case (Submit f)
    then show ?thesis using Cons.prems by (simp add: call_put_def Let_def)
  next
    case Dispatch
    then show ?thesis using Cons.prems abandoned_in_service_step [of s] by simp
  qed
  from Cons.IH [OF this] show ?case by simp
qed

lemma waiting_not_abandoned:
  "current (exec acts (init_dispatcher w)) = None \<Longrightarrow> \<not> abandoned (exec acts (init_dispatcher w))"
  using abandoned_in_service_exec [of "init_dispatcher w" acts]
  by (auto simp: init_dispatcher_def)

lemma two_submitted_reached:
  "exec [Submit flaky, Submit raises_value_error] (init_dispatcher 0) = two_submitted"
  by (simp add: two_submitted_def init_dispatcher_def call_put_def flaky_entry_def
      value_error_entry_def)

lemma serving_flaky_reached: "u_process_queue_step two_submitted = serving_flaky"
  by (simp add: two_submitted_def serving_flaky_def u_process_queue_step_def flaky_entry_def)

lemma serving_flaky_run:
  "u_call (api_function flaky_entry) serving_flaky = Some (Return (Value 7), served_flaky)"
  by (simp add: u_call.simps run_defs serving_flaky_def served_flaky_def flaky_entry_def flaky_def
      rate_exceeded_def)

lemma exec_append: "exec (xs @ ys) s = exec ys (exec xs s)"
  by (induction xs arbitrary: s) simp_all

lemma queued_unanswered:
  assumes "dispatcher_inv s" and "current s = None" and "u_queue s = e # es"
  shows "result_queue e \<notin> set (map fst (puts (trace s)))"
proof -
  from assms have "gets (trace s) @ result_queue e # map result_queue es =
      [0..<next_result_queue s]"
    "map fst (puts (trace s)) = gets (trace s)"
    by (simp_all add: dispatcher_inv_def serving_def)
  then have "distinct (map fst (puts (trace s)) @ result_queue e # map result_queue es)"
    by simp
  then show ?thesis by simp
qed

lemma filter_absent: "c \<notin> set (map fst ps) \<Longrightarrow> filter (\<lambda>cr. fst cr = c) ps = []"
  by (induction ps) auto

text \<open>
  C9, as the code has it: every entry has a result queue of its own, no result queue is
  written twice, and for an entry that the dispatcher takes from the work queue and
  whose protected call ends, by a return or by raising an instance of \<^verbatim>\<open>Exception\<close>,
  the dispatcher's steps arrive at the state in which exactly one object has been put,
  into that entry's result queue (empty until then), the object being what that entry's
  protected call returned or raised, so that this is what the caller holding that
  result queue reads; the dispatcher is then back at the work queue, of which it has
  lost nothing, and goes on.
\<close>

theorem result_written_once_when_call_ends:
  "distinct (submits (trace (exec acts (init_dispatcher w)))) \<and>
   distinct (map fst (puts (trace (exec acts (init_dispatcher w))))) \<and>
   (current (exec acts (init_dispatcher w)) = None \<and>
    u_queue (exec acts (init_dispatcher w)) = e # es \<and>
    u_call (api_function e) (u_process_queue_step (exec acts (init_dispatcher w))) =
      Some (out, s') \<longrightarrow>
      (\<exists>n. exec (acts @ Dispatch # replicate n Dispatch) (init_dispatcher w) =
         deliver e out s') \<and>
      result_queue_get (result_queue e) (trace (exec acts (init_dispatcher w))) = None \<and>
      (\<exists>result. caught out = Some result \<and>
         puts (trace (deliver e out s')) =
           puts (trace (exec acts (init_dispatcher w))) @ [(result_queue e, result)] \<and>
         result_queue_get (result_queue e) (trace (deliver e out s')) = Some result) \<and>
      current (deliver e out s') = None \<and>
      \<not> abandoned (deliver e out s') \<and>
      u_queue (deliver e out s') = es)"
proof -
  define r where "r = exec acts (init_dispatcher w)"
  have inv: "dispatcher_inv r"
    unfolding r_def by (rule dispatcher_inv_exec [OF dispatcher_inv_init])
  then have g: "gets (trace r) @ map result_queue (u_queue r) = [0..<next_result_queue r]"
    "map fst (puts (trace r)) @ serving r = gets (trace r)"
    "submits (trace r) = [0..<next_result_queue r]"
    by (simp_all add: dispatcher_inv_def)
  have d1: "distinct (submits (trace r))" using g(3) by simp
  from g have "distinct ((map fst (puts (trace r)) @ serving r) @ map result_queue (u_queue r))"
    by simp
  then have d2: "distinct (map fst (puts (trace r)))" by simp
  have d3: "(\<exists>n. exec (acts @ Dispatch # replicate n Dispatch) (init_dispatcher w) =
         deliver e out s') \<and>
      result_queue_get (result_queue e) (trace r) = None \<and>
      (\<exists>result. caught out = Some result \<and>
         puts (trace (deliver e out s')) = puts (trace r) @ [(result_queue e, result)] \<and>
         result_queue_get (result_queue e) (trace (deliver e out s')) = Some result) \<and>
      current (deliver e out s') = None \<and>
      \<not> abandoned (deliver e out s') \<and>
      u_queue (deliver e out s') = es"
    if a: "current r = None" "u_queue r = e # es"
      "u_call (api_function e) (u_process_queue_step r) = Some (out, s')"
  proof -
    define s1 where "s1 = u_process_queue_step r"
    have live: "\<not> abandoned r" using a(1) unfolding r_def by (rule waiting_not_abandoned)
    have s1: "current s1 = Some e" "\<not> abandoned s1" "u_queue s1 = es"
      "puts (trace s1) = puts (trace r)"
      using a(1,2) live by (simp_all add: s1_def u_process_queue_step_def)
    have run: "u_call (api_function e) s1 = Some (out, s')" using a(3) by (simp add: s1_def)
    from delivery [OF run s1(1) refl s1(2)] obtain n where
      "exec (replicate n Dispatch) s1 = deliver e out s'" by blast
    then have "exec (acts @ Dispatch # replicate n Dispatch) (init_dispatcher w) =
        deliver e out s'"
      using live by (simp add: exec_append r_def [symmetric] s1_def)
    then have 1: "\<exists>n. exec (acts @ Dispatch # replicate n Dispatch) (init_dispatcher w) =
        deliver e out s'" by blast
    from u_call_dispatcher [OF run] obtain result where
      u: "puts (trace s') = puts (trace s1)" "u_queue s' = u_queue s1"
        "abandoned s' = abandoned s1" and c: "caught out = Some result"
      by blast
    have no: "filter (\<lambda>cr. fst cr = result_queue e) (puts (trace r)) = []"
      by (rule filter_absent) (rule queued_unanswered [OF inv a(1) a(2)])
    have 2: "puts (trace (deliver e out s')) = puts (trace r) @ [(result_queue e, result)]"
      using u s1 by (simp add: deliver_fields [OF c])
    have 3: "result_queue_get (result_queue e) (trace r) = None"
      by (simp add: result_queue_get_def no)
    have 4: "result_queue_get (result_queue e) (trace (deliver e out s')) = Some result"
      by (simp add: result_queue_get_def 2 no)
    have 5: "current (deliver e out s') = None" "\<not> abandoned (deliver e out s')"
      "u_queue (deliver e out s') = es"
      using u s1 by (simp_all add: deliver_fields [OF c])
    show ?thesis using 1 2 3 4 5 c by blast
  qed
  show ?thesis using d1 d2 d3 unfolding r_def by blast
qed

theorem result_written_once_when_call_ends_witness:
  "current (exec [Submit flaky, Submit raises_value_error] (init_dispatcher 0)) = None \<and>
   u_queue (exec [Submit flaky, Submit raises_value_error] (init_dispatcher 0)) =
     [flaky_entry, value_error_entry] \<and>
   u_call (api_function flaky_entry)
     (u_process_queue_step (exec [Submit flaky, Submit raises_value_error] (init_dispatcher 0))) =
     Some (Return (Value 7), served_flaky) \<and>
   (\<exists>n. exec ([Submit flaky, Submit raises_value_error] @ Dispatch # replicate n Dispatch)
       (init_dispatcher 0) = deliver flaky_entry (Return (Value 7)) served_flaky) \<and>
   puts (trace (deliver flaky_entry (Return (Value 7)) served_flaky)) = [(0, Value 7)] \<and>
   result_queue_get 0 (trace (deliver flaky_entry (Return (Value 7)) served_flaky)) =
     Some (Value 7) \<and>
   current (deliver flaky_entry (Return (Value 7)) served_flaky) = None \<and>
   \<not> abandoned (deliver flaky_entry (Return (Value 7)) served_flaky) \<and>
   u_queue (deliver flaky_entry (Return (Value 7)) served_flaky) = [value_error_entry]"
proof -
  have h: "current two_submitted = None" "u_queue two_submitted = [flaky_entry, value_error_entry]"
    "puts (trace two_submitted) = []" "result_queue flaky_entry = 0"
    by (simp_all add: two_submitted_def flaky_entry_def)
  have run: "u_call (api_function flaky_entry) (u_process_queue_step two_submitted) =
      Some (Return (Value 7), served_flaky)"
    by (simp only: serving_flaky_reached serving_flaky_run)
  from result_written_once_when_call_ends
      [of "[Submit flaky, Submit raises_value_error]" 0 flaky_entry "[value_error_entry]"
        "Return (Value 7)" served_flaky]
  have "(\<exists>n. exec ([Submit flaky, Submit raises_value_error] @ Dispatch # replicate n Dispatch)
         (init_dispatcher 0) = deliver flaky_entry (Return (Value 7)) served_flaky) \<and>
      (\<exists>result. caught (Return (Value 7) :: nat outcome) = Some result \<and>
         puts (trace (deliver flaky_entry (Return (Value 7)) served_flaky)) =
           puts (trace two_submitted) @ [(result_queue flaky_entry, result)] \<and>
         result_queue_get (result_queue flaky_entry)
           (trace (deliver flaky_entry (Return (Value 7)) served_flaky)) = Some result) \<and>
      current (deliver flaky_entry (Return (Value 7)) served_flaky) = None \<and>
      \<not> abandoned (deliver flaky_entry (Return (Value 7)) served_flaky) \<and>
      u_queue (deliver flaky_entry (Return (Value 7)) served_flaky) = [value_error_entry]"
    using h run by (simp only: two_submitted_reached) simp
  then show ?thesis using h run by (simp only: two_submitted_reached) auto
qed

text \<open>
  C9 as stated fails for an entry whose callable is throttled at every attempt: the
  loop of \<^verbatim>\<open>_call\<close> has no bound, the protected call of the entry in service never
  ends, and its result queue is left unwritten.
\<close>

lemma always_throttled_body:
  "''Rate exceeded'' \<in> set (boto2_throttle_strings (self s)) \<Longrightarrow>
   u_call_body always_throttled s = Continue (retry_state rate_exceeded (world s + 1) s)"
  by (rule u_call_body_throttled) (simp_all add: always_throttled_def rate_exceeded_def)

lemma always_throttled_no_result:
  "u_call f s = Some y \<Longrightarrow> f = always_throttled \<Longrightarrow>
   ''Rate exceeded'' \<in> set (boto2_throttle_strings (self s)) \<Longrightarrow> False"
proof (induction f s y rule: u_call.raw_induct [rotated 1, consumes 1])
  case (1 uc f s y)
  from 1(3,4) have "u_call_body f s = Continue (retry_state rate_exceeded (world s + 1) s)"
    by (simp add: always_throttled_body)
  with 1(2) have "uc f (retry_state rate_exceeded (world s + 1) s) = Some y" by simp
  from 1(1) [OF this 1(3)] 1(4) show False by (simp add: retry_state_def)
qed

lemma always_throttled_never_returns:
  assumes "''Rate exceeded'' \<in> set (boto2_throttle_strings (self s))"
  shows "u_call always_throttled s = None"
proof (cases "u_call always_throttled s")
  case None
  then show ?thesis .
next
  case (Some y)
  from always_throttled_no_result [OF Some refl assms] show ?thesis ..
qed

lemma stuck_reached: "exec [Submit always_throttled, Dispatch] (init_dispatcher 0) = stuck"
  by (simp add: stuck_def init_dispatcher_def call_put_def u_process_queue_step_def)

lemma stuck_forever:
  "current s = Some \<lparr> result_queue = 0, api_function = always_throttled \<rparr> \<Longrightarrow>
   ''Rate exceeded'' \<in> set (boto2_throttle_strings (self s)) \<Longrightarrow>
   puts (trace (exec (replicate n Dispatch) s)) = puts (trace s)"
proof (induction n arbitrary: s)
  case 0
  then show ?case by simp
next
  case (Suc n)
  let ?s1 = "retry_state rate_exceeded (world s + 1) s"
  have "u_process_queue_step s = ?s1"
    using Suc.prems by (simp add: u_process_queue_step_def always_throttled_body)
  moreover have "puts (trace (exec (replicate n Dispatch) ?s1)) = puts (trace ?s1)"
    using Suc.prems by (intro Suc.IH) (simp_all add: retry_state_def)
  moreover have "puts (trace (exec (replicate n Dispatch) s)) = puts (trace s)"
    using Suc.prems by (intro Suc.IH)
  ultimately show ?case by (simp add: retry_state_def)
qed

lemma stuck_never_answered: "puts (trace (exec (replicate n Dispatch) stuck)) = []"
  using stuck_forever [of stuck n] by (simp add: stuck_def init_def)

theorem always_throttled_is_never_answered:
  "current stuck = Some \<lparr> result_queue = 0, api_function = always_throttled \<rparr> \<and>
   u_call always_throttled stuck = None \<and>
   puts (trace stuck) = []"
proof -
  have "''Rate exceeded'' \<in> set (boto2_throttle_strings (self stuck))"
    by (simp add: stuck_def init_def)
  from always_throttled_never_returns [OF this] show ?thesis by (simp add: stuck_def)
qed



text \<open>
  An object that is an exception but not an instance of \<^verbatim>\<open>Exception\<close> is returned by
  \<^verbatim>\<open>call\<close> when it reads one, which it does when the callable has returned one.
\<close>

lemma returned_base_exception_is_returned:
  "call_get (ExcObj (OtherBaseException c)) = Return (ExcObj (OtherBaseException c))"
  by (simp add: call_get_def)

text \<open>
  When the callable raises one, the protected call and the dispatcher are abandoned:
  nothing is put, the entry stays in the dispatcher's hands and the entries behind it
  stay in the work queue, whatever steps follow.
\<close>

lemma keyboard_interrupt_never_returns: "u_call raises_keyboard_interrupt start = None"
  by (simp add: u_call.simps u_call_body_def u_thread_def raises_keyboard_interrupt_def)

lemma keyboard_interrupt_run:
  "exec [Submit raises_keyboard_interrupt, Submit returns_two, Dispatch, Dispatch, Dispatch,
       Dispatch] (init_dispatcher 0) =
   \<lparr> self = init, world = 1,
     trace = [EvSubmit 0, EvSubmit 1, EvGet 0,
              EvThread (Raise (OtherBaseException ''KeyboardInterrupt''))],
     u_queue = [\<lparr> result_queue = 1, api_function = returns_two \<rparr>],
     current = Some \<lparr> result_queue = 0, api_function = raises_keyboard_interrupt \<rparr>,
     next_result_queue = 2, abandoned = True \<rparr>"
  by (simp add: init_dispatcher_def call_put_def u_process_queue_step_def u_call_body_def
      u_thread_def raises_keyboard_interrupt_def)

end
